theory Spec2Isabelle
  imports Complex_Main
begin

section \<open>Data model of \<open>src/App.tsx\<close>\<close>

text \<open>
  The interface \<open>UploadedImage\<close>; its fields \<open>id\<close> and \<open>size\<close> are \<open>id'\<close> and \<open>size'\<close>
  here. The optional \<open>size\<close> is a byte count reported by the
  platform picker, so it is a natural number here; \<open>None\<close> is JavaScript's \<open>undefined\<close>.
\<close>

record UploadedImage =
  id' :: string
  uri :: string
  name :: string
  size' :: "nat option"

text \<open>
  The three \<open>useState\<close> cells of the component \<open>App\<close>: \<open>images\<close>, \<open>selectedImage\<close>
  (\<open>None\<close> is \<open>null\<close>) and \<open>modalVisible\<close>.
\<close>

record state =
  images :: "UploadedImage list"
  selectedImage :: "UploadedImage option"
  modalVisible :: bool

definition init :: state where
  "init = \<lparr>images = [], selectedImage = None, modalVisible = False\<rparr>"

section \<open>JavaScript primitives the source calls\<close>

definition digit_char :: "nat \<Rightarrow> char" where
  "digit_char d = ''0123456789'' ! (d mod 10)"

text \<open>Decimal rendering of a non-negative integer, as a template literal or \<open>String(n)\<close> gives it.\<close>

fun toString :: "nat \<Rightarrow> string" where
  "toString n = (if n < 10 then [digit_char n] else toString (n div 10) @ [digit_char (n mod 10)])"

declare toString.simps [simp del]

text \<open>
  \<open>Number.prototype.toFixed(f)\<close> for a value \<open>0 \<le> x < 10^21\<close>, following the steps of
  ECMA-262: \<open>n\<close> is the integer for which \<open>n / 10^f - x\<close> is as close to zero as possible,
  the larger one on a tie; its digits are padded with zeros to \<open>f + 1\<close> places and the
  point is put before the last \<open>f\<close> of them. (For \<open>x \<ge> 10^21\<close> the standard switches to
  exponent notation; that branch is not reached from byte counts below \<open>2^53\<close>.)
\<close>

definition toFixed :: "rat \<Rightarrow> nat \<Rightarrow> string" where
  "toFixed x f =
     (let n = nat \<lfloor>x * 10 ^ f + 1 / 2\<rfloor>;
          m = toString n;
          k = length m;
          m = (if k \<le> f then replicate (f + 1 - k) CHR ''0'' @ m else m);
          k = (if k \<le> f then f + 1 else k)
      in if f \<noteq> 0 then take (k - f) m @ ''.'' @ drop (k - f) m else m)"

text \<open>\<open>String.prototype.substr(start, length)\<close> for non-negative arguments.\<close>

definition substr :: "nat \<Rightarrow> nat \<Rightarrow> string \<Rightarrow> string" where
  "substr start len s = take len (drop start s)"

section \<open>\<open>formatFileSize\<close>\<close>

text \<open>
  \<open>if (!bytes) return 'Unknown size'; return (bytes / 1024 / 1024).toFixed(2) + ' MB'\<close>.
  \<open>!bytes\<close> holds for \<open>undefined\<close> and for \<open>0\<close>. Dividing a double by 1024 is exact, so
  for a byte count below \<open>2^53\<close> the quotient is the rational \<open>bytes / 1024 / 1024\<close>.
\<close>

definition formatFileSize :: "nat option \<Rightarrow> string" where
  "formatFileSize bytes =
     (case bytes of
        None \<Rightarrow> ''Unknown size''
      | Some b \<Rightarrow>
          if b = 0 then ''Unknown size''
          else toFixed (of_nat b / 1024 / 1024) 2 @ '' MB'')"

section \<open>Platform services\<close>

text \<open>
  The component talks to \<open>expo-image-picker\<close> and to \<open>Alert\<close>. Each awaited call is
  modelled by the value it resolves to, given as an argument of the operation, and by an
  entry in the list of events the operation returns, so that what was asked of the
  platform (and how often) is part of the result.
\<close>

datatype PermissionStatus = Granted | Denied | Undetermined

record ImagePickerAsset =
  asset_uri :: string
  fileName :: "string option"
  fileSize :: "nat option"

record ImagePickerResult =
  canceled :: bool
  assets :: "ImagePickerAsset list option"

text \<open>
  What the environment hands out while one asset is turned into a record:
  \<open>random36\<close> is \<open>Math.random().toString(36)\<close> (such as \<open>0.i\<close> for one half) and \<open>now\<close> is
  \<open>Date.now()\<close>.
\<close>

record draw =
  random36 :: string
  now :: nat

text \<open>\<open>Alert title message buttons\<close>; an alert without a button list has \<open>[]\<close>.\<close>

datatype event =
    RequestMediaLibraryPermissions
  | RequestCameraPermissions
  | LaunchImageLibrary
  | LaunchCamera
  | Alert string string "string list"

text \<open>The button of the remove dialog that the user presses.\<close>

datatype RemoveButton = Cancel | Remove

text \<open>
  JavaScript's \<open>a || b\<close> on an optional string: \<open>undefined\<close>, \<open>null\<close> and the empty
  string are falsy.
\<close>

definition or_else :: "string option \<Rightarrow> string \<Rightarrow> string" where
  "or_else a b = (case a of None \<Rightarrow> b | Some v \<Rightarrow> if v = [] then b else v)"

section \<open>The operations of \<open>App\<close>\<close>

definition requestPermissions :: "PermissionStatus \<Rightarrow> bool \<times> event list" where
  "requestPermissions status =
     (if status \<noteq> Granted
      then (False,
            [RequestMediaLibraryPermissions,
             Alert ''Permission Required''
               ''Sorry, we need camera roll permissions to upload images!'' []])
      else (True, [RequestMediaLibraryPermissions]))"

text \<open>
  \<open>pickImage\<close>: \<open>status\<close> answers the permission request, \<open>result\<close> is what the library
  picker resolves to (read only when permission was granted) and \<open>draws k\<close> is the
  environment's draw for the \<open>k\<close>-th asset of the result.
\<close>

definition pickImage ::
  "PermissionStatus \<Rightarrow> ImagePickerResult \<Rightarrow> (nat \<Rightarrow> draw) \<Rightarrow> state \<Rightarrow> state \<times> event list" where
  "pickImage status result draws s =
     (case requestPermissions status of
        (hasPermission, asked) \<Rightarrow>
          if \<not> hasPermission then (s, asked)
          else
            (case (canceled result, assets result) of
               (False, Some as) \<Rightarrow>
                 let newImages =
                       map (\<lambda>(k, asset).
                              \<lparr>id' = substr 2 9 (random36 (draws k)),
                               uri = asset_uri asset,
                               name = or_else (fileName asset)
                                        (''image_'' @ toString (now (draws k)) @ ''.jpg''),
                               size' = fileSize asset\<rparr>)
                           (enumerate 0 as)
                 in (s\<lparr>images := images s @ newImages\<rparr>, asked @ [LaunchImageLibrary])
             | _ \<Rightarrow> (s, asked @ [LaunchImageLibrary])))"

definition takePhoto ::
  "PermissionStatus \<Rightarrow> ImagePickerResult \<Rightarrow> draw \<Rightarrow> state \<Rightarrow> state \<times> event list" where
  "takePhoto status result d s =
     (if status \<noteq> Granted
      then (s,
            [RequestCameraPermissions,
             Alert ''Permission Required''
               ''Sorry, we need camera permissions to take photos!'' []])
      else
        (case (canceled result, assets result) of
           (False, Some (asset # _)) \<Rightarrow>
             let newImage =
                   \<lparr>id' = substr 2 9 (random36 d),
                    uri = asset_uri asset,
                    name = or_else (fileName asset)
                             (''photo_'' @ toString (now d) @ ''.jpg''),
                    size' = fileSize asset\<rparr>
             in (s\<lparr>images := images s @ [newImage]\<rparr>,
                 [RequestCameraPermissions, LaunchCamera])
         | _ \<Rightarrow> (s, [RequestCameraPermissions, LaunchCamera])))"

text \<open>
  \<open>removeImage\<close> always shows the dialog; only the handler of its \<open>Remove\<close> button
  touches the state, and it filters \<open>images\<close>.
\<close>

definition removeImage :: "string \<Rightarrow> RemoveButton \<Rightarrow> state \<Rightarrow> state \<times> event list" where
  "removeImage i pressed s =
     (let shown = [Alert ''Remove Image'' ''Are you sure you want to remove this image?''
                     [''Cancel'', ''Remove'']]
      in case pressed of
           Cancel \<Rightarrow> (s, shown)
         | Remove \<Rightarrow> (s\<lparr>images := filter (\<lambda>img. id' img \<noteq> i) (images s)\<rparr>, shown))"

definition openLightbox :: "UploadedImage \<Rightarrow> state \<Rightarrow> state" where
  "openLightbox img s = s\<lparr>selectedImage := Some img, modalVisible := True\<rparr>"

definition closeLightbox :: "state \<Rightarrow> state" where
  "closeLightbox s = s\<lparr>selectedImage := None, modalVisible := False\<rparr>"

section \<open>Sequences of operations\<close>

datatype op =
    PickImage PermissionStatus ImagePickerResult "nat \<Rightarrow> draw"
  | TakePhoto PermissionStatus ImagePickerResult draw
  | RemoveImage string RemoveButton
  | OpenLightbox UploadedImage
  | CloseLightbox

fun step :: "op \<Rightarrow> state \<Rightarrow> state" where
  "step (PickImage status result draws) s = fst (pickImage status result draws s)"
| "step (TakePhoto status result d) s = fst (takePhoto status result d s)"
| "step (RemoveImage i pressed) s = fst (removeImage i pressed s)"
| "step (OpenLightbox img) s = openLightbox img s"
| "step CloseLightbox s = closeLightbox s"

fun run :: "op list \<Rightarrow> state \<Rightarrow> state" where
  "run [] s = s"
| "run (x # xs) s = run xs (step x s)"

text \<open>The ids an operation hands to new records, in the order it makes them.\<close>

fun tokens :: "op \<Rightarrow> string list" where
  "tokens (PickImage status result draws) =
     (case (status, canceled result, assets result) of
        (Granted, False, Some as) \<Rightarrow>
          map (\<lambda>k. substr 2 9 (random36 (draws k))) [0..<length as]
      | _ \<Rightarrow> [])"
| "tokens (TakePhoto status result d) =
     (case (status, canceled result, assets result) of
        (Granted, False, Some (asset # _)) \<Rightarrow> [substr 2 9 (random36 d)]
      | _ \<Rightarrow> [])"
| "tokens _ = []"

text \<open>
  The viewer invariant of the specification: an open viewer shows a record whose id is
  in \<open>images\<close>.
\<close>

definition viewer_inv :: "state \<Rightarrow> bool" where
  "viewer_inv s =
     (modalVisible s \<longrightarrow>
        (case selectedImage s of None \<Rightarrow> False | Some r \<Rightarrow> id' r \<in> id' ` set (images s)))"

text \<open>
  A sequence is \<open>guarded\<close> from a state when each \<open>openLightbox\<close> in it is given a record
  of the list at that moment (as the grid's \<open>onPress\<close> does) and no confirmed removal is
  given the id of the record selected at that moment.
\<close>

fun allowed :: "state \<Rightarrow> op \<Rightarrow> bool" where
  "allowed s (OpenLightbox img) = (img \<in> set (images s))"
| "allowed s (RemoveImage i Remove) =
     (case selectedImage s of None \<Rightarrow> True | Some r \<Rightarrow> id' r \<noteq> i)"
| "allowed s _ = True"

fun guarded :: "state \<Rightarrow> op list \<Rightarrow> bool" where
  "guarded s [] = True"
| "guarded s (x # xs) = (allowed s x \<and> guarded (step x s) xs)"

section \<open>Auxiliary facts\<close>

lemma filter_id_split:
  assumes "distinct (map id' (xs @ r # ys))"
  shows "filter (\<lambda>img. id' img \<noteq> id' r) (xs @ r # ys) = xs @ ys"
proof -
  have "id' r \<notin> id' ` set xs" and "id' r \<notin> id' ` set ys" using assms by auto
  then have "\<forall>x\<in>set xs. id' x \<noteq> id' r" and "\<forall>y\<in>set ys. id' y \<noteq> id' r"
    by (metis imageI)+
  then show ?thesis by (simp add: filter_id_conv)
qed

section \<open>Removing an image\<close>

text \<open>
  C9. \<open>removeImage\<close> changes nothing but \<open>images\<close>: for every state, every id (the id of
  the selected record included) and either button, \<open>selectedImage\<close> and \<open>modalVisible\<close>
  are what they were.
\<close>

theorem removeImage_frame:
  "selectedImage (fst (removeImage i pressed s)) = selectedImage s \<and>
   modalVisible (fst (removeImage i pressed s)) = modalVisible s"
  by (cases pressed) (simp_all add: removeImage_def)

text \<open>
  C5. Answered \<open>Cancel\<close>, \<open>removeImage\<close> leaves the whole state as it was. Answered
  \<open>Remove\<close>, it keeps exactly the records whose id differs from the argument, in their
  order: when the ids are distinct and the record with that id sits between \<open>xs\<close> and
  \<open>ys\<close>, the list becomes \<open>xs @ ys\<close>, and when no record has the id the list is
  unchanged.
\<close>

theorem removeImage_cancel_or_delete:
  "fst (removeImage i Cancel s) = s \<and>
   images (fst (removeImage i Remove s)) = filter (\<lambda>img. id' img \<noteq> i) (images s) \<and>
   (distinct (map id' (images s)) \<and> images s = xs @ r # ys \<and> id' r = i \<longrightarrow>
      images (fst (removeImage i Remove s)) = xs @ ys) \<and>
   (i \<notin> id' ` set (images s) \<longrightarrow> images (fst (removeImage i Remove s)) = images s)"
proof -
  have a: "fst (removeImage i Cancel s) = s" by (simp add: removeImage_def)
  have b: "images (fst (removeImage i Remove s)) = filter (\<lambda>img. id' img \<noteq> i) (images s)"
    by (simp add: removeImage_def)
  have c: "distinct (map id' (images s)) \<and> images s = xs @ r # ys \<and> id' r = i \<longrightarrow>
      images (fst (removeImage i Remove s)) = xs @ ys"
    using filter_id_split[of xs r ys] b by auto
  have d: "i \<notin> id' ` set (images s) \<longrightarrow> images (fst (removeImage i Remove s)) = images s"
    unfolding b by (auto simp add: filter_id_conv)
  show ?thesis using a b c d by blast
qed

theorem removeImage_cancel_or_delete_witness:
  "distinct (map id' [\<lparr>id' = ''a'', uri = ''u1'', name = ''a.jpg'', size' = None\<rparr>,
                      \<lparr>id' = ''b'', uri = ''u2'', name = ''b.jpg'', size' = Some 7\<rparr>,
                      \<lparr>id' = ''c'', uri = ''u3'', name = ''c.jpg'', size' = None\<rparr>]) \<and>
   images (fst (removeImage ''b'' Remove
      \<lparr>images = [\<lparr>id' = ''a'', uri = ''u1'', name = ''a.jpg'', size' = None\<rparr>,
                 \<lparr>id' = ''b'', uri = ''u2'', name = ''b.jpg'', size' = Some 7\<rparr>,
                 \<lparr>id' = ''c'', uri = ''u3'', name = ''c.jpg'', size' = None\<rparr>],
       selectedImage = None, modalVisible = False\<rparr>))
     = [\<lparr>id' = ''a'', uri = ''u1'', name = ''a.jpg'', size' = None\<rparr>,
        \<lparr>id' = ''c'', uri = ''u3'', name = ''c.jpg'', size' = None\<rparr>] \<and>
   ''z'' \<notin> id' ` set [\<lparr>id' = ''a'', uri = ''u1'', name = ''a.jpg'', size' = None\<rparr>] \<and>
   images (fst (removeImage ''z'' Remove
      \<lparr>images = [\<lparr>id' = ''a'', uri = ''u1'', name = ''a.jpg'', size' = None\<rparr>],
       selectedImage = None, modalVisible = False\<rparr>))
     = [\<lparr>id' = ''a'', uri = ''u1'', name = ''a.jpg'', size' = None\<rparr>]"
  using
    removeImage_cancel_or_delete
      [of "''b''"
          "\<lparr>images = [\<lparr>id' = ''a'', uri = ''u1'', name = ''a.jpg'', size' = None\<rparr>,
                      \<lparr>id' = ''b'', uri = ''u2'', name = ''b.jpg'', size' = Some 7\<rparr>,
                      \<lparr>id' = ''c'', uri = ''u3'', name = ''c.jpg'', size' = None\<rparr>],
            selectedImage = None, modalVisible = False\<rparr>"
          "[\<lparr>id' = ''a'', uri = ''u1'', name = ''a.jpg'', size' = None\<rparr>]"
          "\<lparr>id' = ''b'', uri = ''u2'', name = ''b.jpg'', size' = Some 7\<rparr>"
          "[\<lparr>id' = ''c'', uri = ''u3'', name = ''c.jpg'', size' = None\<rparr>]"]
    removeImage_cancel_or_delete
      [of "''z''"
          "\<lparr>images = [\<lparr>id' = ''a'', uri = ''u1'', name = ''a.jpg'', size' = None\<rparr>],
            selectedImage = None, modalVisible = False\<rparr>"]
  by simp

text \<open>
  C6. A confirmed \<open>removeImage i\<close> after a confirmed \<open>removeImage i\<close> gives the state the
  first one gave, in which no record has the id \<open>i\<close>. The operation has no failing
  branch: \<open>filter\<close> on a list without a match returns the list.
\<close>

theorem removeImage_idempotent:
  "fst (removeImage i Remove (fst (removeImage i Remove s))) = fst (removeImage i Remove s) \<and>
   i \<notin> id' ` set (images (fst (removeImage i Remove s)))"
  by (auto simp add: removeImage_def)

section \<open>The viewer\<close>

text \<open>
  C10. \<open>openLightbox\<close> stores its argument in \<open>selectedImage\<close> and sets \<open>modalVisible\<close>,
  whatever \<open>images\<close> holds, and leaves \<open>images\<close> alone; from the initial state, whose
  list is empty, it does so for every record.
\<close>

theorem openLightbox_unconditional:
  "selectedImage (openLightbox img s) = Some img \<and>
   modalVisible (openLightbox img s) = True \<and>
   images (openLightbox img s) = images s \<and>
   openLightbox img init = \<lparr>images = [], selectedImage = Some img, modalVisible = True\<rparr>"
  by (simp add: openLightbox_def init_def)

section \<open>Permission denied\<close>

text \<open>
  C8. When the permission service does not answer \<open>granted\<close>, \<open>pickImage\<close> and
  \<open>takePhoto\<close> each ask once, show one \<open>Permission Required\<close> alert and return the state
  they were given: the picker or the camera is not launched and the request is not
  repeated.
\<close>

theorem permission_denied_aborts:
  assumes "status \<noteq> Granted"
  shows "pickImage status result draws s =
           (s, [RequestMediaLibraryPermissions,
                Alert ''Permission Required''
                  ''Sorry, we need camera roll permissions to upload images!'' []]) \<and>
         takePhoto status result d s =
           (s, [RequestCameraPermissions,
                Alert ''Permission Required''
                  ''Sorry, we need camera permissions to take photos!'' []])"
  using assms by (simp add: pickImage_def takePhoto_def requestPermissions_def)

theorem permission_denied_aborts_witness:
  "Denied \<noteq> Granted \<and>
   pickImage Denied
     \<lparr>canceled = False,
      assets = Some [\<lparr>asset_uri = ''u1'', fileName = Some ''a.jpg'', fileSize = None\<rparr>]\<rparr>
     (\<lambda>k. \<lparr>random36 = ''0.i'', now = 5\<rparr>) init =
     (init, [RequestMediaLibraryPermissions,
             Alert ''Permission Required''
               ''Sorry, we need camera roll permissions to upload images!'' []]) \<and>
   takePhoto Denied
     \<lparr>canceled = False,
      assets = Some [\<lparr>asset_uri = ''u1'', fileName = Some ''a.jpg'', fileSize = None\<rparr>]\<rparr>
     \<lparr>random36 = ''0.i'', now = 5\<rparr> init =
     (init, [RequestCameraPermissions,
             Alert ''Permission Required''
               ''Sorry, we need camera permissions to take photos!'' []])"
  using permission_denied_aborts
    [of Denied
        "\<lparr>canceled = False,
          assets = Some [\<lparr>asset_uri = ''u1'', fileName = Some ''a.jpg'', fileSize = None\<rparr>]\<rparr>"
        "\<lambda>k. \<lparr>random36 = ''0.i'', now = 5\<rparr>" init "\<lparr>random36 = ''0.i'', now = 5\<rparr>"]
  by simp

section \<open>Removing the selected image\<close>

text \<open>
  C1, as the code has it. A confirmed \<open>removeImage\<close> whose argument is the id of the
  selected record removes every record with that id from \<open>images\<close> and leaves the viewer
  as it was: \<open>selectedImage\<close> still holds the record and \<open>modalVisible\<close> keeps its value.
\<close>

theorem removeImage_selected_keeps_viewer:
  assumes "selectedImage s = Some r" and "id' r = i"
  shows "selectedImage (fst (removeImage i Remove s)) = Some r \<and>
         modalVisible (fst (removeImage i Remove s)) = modalVisible s \<and>
         r \<notin> set (images (fst (removeImage i Remove s))) \<and>
         i \<notin> id' ` set (images (fst (removeImage i Remove s)))"
  using assms by (auto simp add: removeImage_def)

theorem removeImage_selected_keeps_viewer_witness:
  "selectedImage
     \<lparr>images = [\<lparr>id' = ''i'', uri = ''u1'', name = ''a.jpg'', size' = None\<rparr>],
      selectedImage = Some \<lparr>id' = ''i'', uri = ''u1'', name = ''a.jpg'', size' = None\<rparr>,
      modalVisible = True\<rparr>
     = Some \<lparr>id' = ''i'', uri = ''u1'', name = ''a.jpg'', size' = None\<rparr> \<and>
   id' \<lparr>id' = ''i'', uri = ''u1'', name = ''a.jpg'', size' = None\<rparr> = ''i'' \<and>
   fst (removeImage ''i'' Remove
     \<lparr>images = [\<lparr>id' = ''i'', uri = ''u1'', name = ''a.jpg'', size' = None\<rparr>],
      selectedImage = Some \<lparr>id' = ''i'', uri = ''u1'', name = ''a.jpg'', size' = None\<rparr>,
      modalVisible = True\<rparr>)
     = \<lparr>images = [],
        selectedImage = Some \<lparr>id' = ''i'', uri = ''u1'', name = ''a.jpg'', size' = None\<rparr>,
        modalVisible = True\<rparr>"
  using removeImage_selected_keeps_viewer
    [of "\<lparr>images = [\<lparr>id' = ''i'', uri = ''u1'', name = ''a.jpg'', size' = None\<rparr>],
          selectedImage = Some \<lparr>id' = ''i'', uri = ''u1'', name = ''a.jpg'', size' = None\<rparr>,
          modalVisible = True\<rparr>"
        "\<lparr>id' = ''i'', uri = ''u1'', name = ''a.jpg'', size' = None\<rparr>" "''i''"]
  by (simp add: removeImage_def)

text \<open>
  The claim as the specification words it fails: import one asset, open the viewer on its
  record, confirm its removal. The state before the removal is reached from \<open>init\<close>, and
  after it the viewer is neither cleared nor closed.
\<close>

theorem removeImage_closes_viewer_counterexample:
  "run [PickImage Granted
          \<lparr>canceled = False,
           assets = Some [\<lparr>asset_uri = ''u1'', fileName = Some ''a.jpg'', fileSize = None\<rparr>]\<rparr>
          (\<lambda>k. \<lparr>random36 = ''0.i'', now = 5\<rparr>),
        OpenLightbox \<lparr>id' = ''i'', uri = ''u1'', name = ''a.jpg'', size' = None\<rparr>] init
     = \<lparr>images = [\<lparr>id' = ''i'', uri = ''u1'', name = ''a.jpg'', size' = None\<rparr>],
        selectedImage = Some \<lparr>id' = ''i'', uri = ''u1'', name = ''a.jpg'', size' = None\<rparr>,
        modalVisible = True\<rparr> \<and>
   \<not> (selectedImage (fst (removeImage ''i'' Remove
          \<lparr>images = [\<lparr>id' = ''i'', uri = ''u1'', name = ''a.jpg'', size' = None\<rparr>],
           selectedImage = Some \<lparr>id' = ''i'', uri = ''u1'', name = ''a.jpg'', size' = None\<rparr>,
           modalVisible = True\<rparr>)) = None \<and>
      modalVisible (fst (removeImage ''i'' Remove
          \<lparr>images = [\<lparr>id' = ''i'', uri = ''u1'', name = ''a.jpg'', size' = None\<rparr>],
           selectedImage = Some \<lparr>id' = ''i'', uri = ''u1'', name = ''a.jpg'', size' = None\<rparr>,
           modalVisible = True\<rparr>)) = False)"
  by (simp add: init_def pickImage_def requestPermissions_def substr_def
      or_else_def openLightbox_def removeImage_def)

section \<open>The viewer invariant over sequences\<close>

lemma pickImage_grows:
  "\<exists>new. fst (pickImage status result draws s) = s\<lparr>images := images s @ new\<rparr>"
proof (cases "status = Granted \<and> \<not> canceled result \<and> assets result \<noteq> None")
  case True
  then show ?thesis
    by (auto simp add: pickImage_def requestPermissions_def Let_def)
next
  case False
  then have "fst (pickImage status result draws s) = s"
    by (auto simp add: pickImage_def requestPermissions_def split: option.splits bool.splits)
  then have "fst (pickImage status result draws s) = s\<lparr>images := images s @ []\<rparr>" by simp
  then show ?thesis by blast
qed

lemma takePhoto_grows:
  "\<exists>new. fst (takePhoto status result d s) = s\<lparr>images := images s @ new\<rparr>"
proof (cases "status = Granted \<and> \<not> canceled result \<and> (\<exists>a as. assets result = Some (a # as))")
  case True
  then show ?thesis
    by (auto simp add: takePhoto_def Let_def)
next
  case False
  then have "fst (takePhoto status result d s) = s"
    by (auto simp add: takePhoto_def split: option.splits bool.splits list.splits)
  then have "fst (takePhoto status result d s) = s\<lparr>images := images s @ []\<rparr>" by simp
  then show ?thesis by blast
qed

lemma step_keeps_selected_when_open:
  "modalVisible s \<longrightarrow> selectedImage s \<noteq> None \<Longrightarrow>
   modalVisible (step x s) \<longrightarrow> selectedImage (step x s) \<noteq> None"
proof (cases x)
  case (PickImage st res dr)
  obtain new where "fst (pickImage st res dr s) = s\<lparr>images := images s @ new\<rparr>"
    using pickImage_grows by blast
  then show "modalVisible s \<longrightarrow> selectedImage s \<noteq> None \<Longrightarrow> ?thesis" using PickImage by simp
next
  case (TakePhoto st res d)
  obtain new where "fst (takePhoto st res d s) = s\<lparr>images := images s @ new\<rparr>"
    using takePhoto_grows by blast
  then show "modalVisible s \<longrightarrow> selectedImage s \<noteq> None \<Longrightarrow> ?thesis" using TakePhoto by simp
next
  case (RemoveImage i b)
  then show "modalVisible s \<longrightarrow> selectedImage s \<noteq> None \<Longrightarrow> ?thesis"
    by (cases b) (simp_all add: removeImage_def)
next
  case (OpenLightbox img)
  then show ?thesis by (simp add: openLightbox_def)
next
  case CloseLightbox
  then show ?thesis by (simp add: closeLightbox_def)
qed

lemma run_keeps_selected_when_open:
  "modalVisible s \<longrightarrow> selectedImage s \<noteq> None \<Longrightarrow>
   modalVisible (run xs s) \<longrightarrow> selectedImage (run xs s) \<noteq> None"
proof (induction xs arbitrary: s)
  case Nil
  then show ?case by simp
next
  case (Cons x xs)
  show ?case using Cons.IH[OF step_keeps_selected_when_open[OF Cons.prems]] by simp
qed

lemma step_viewer_inv:
  assumes "viewer_inv s" and "allowed s x"
  shows "viewer_inv (step x s)"
proof (cases x)
  case (PickImage st res dr)
  obtain new where "fst (pickImage st res dr s) = s\<lparr>images := images s @ new\<rparr>"
    using pickImage_grows by blast
  then show ?thesis using PickImage assms(1)
    by (auto simp add: viewer_inv_def split: option.splits)
next
  case (TakePhoto st res d)
  obtain new where "fst (takePhoto st res d s) = s\<lparr>images := images s @ new\<rparr>"
    using takePhoto_grows by blast
  then show ?thesis using TakePhoto assms(1)
    by (auto simp add: viewer_inv_def split: option.splits)
next
  case (RemoveImage i b)
  show ?thesis
  proof (cases b)
    case Cancel
    then show ?thesis using RemoveImage assms(1) by (simp add: removeImage_def)
  next
    case Remove
    then show ?thesis using RemoveImage assms
      by (auto simp add: removeImage_def viewer_inv_def split: option.splits)
  qed
next
  case (OpenLightbox img)
  then show ?thesis using assms(2) by (simp add: openLightbox_def viewer_inv_def)
next
  case CloseLightbox
  then show ?thesis by (simp add: closeLightbox_def viewer_inv_def)
qed

lemma run_viewer_inv:
  "viewer_inv s \<Longrightarrow> guarded s xs \<Longrightarrow> viewer_inv (run xs s)"
  by (induction xs arbitrary: s) (simp_all add: step_viewer_inv)

text \<open>
  C2, as the code has it. After every sequence of operations from \<open>init\<close>, an open viewer
  has a selected record. That record's id is in \<open>images\<close> when the sequence is guarded:
  every \<open>openLightbox\<close> was given a record of the list of that moment and no confirmed
  removal was given the id of the record selected at that moment.
\<close>

theorem viewer_open_has_selected:
  "(modalVisible (run ops init) \<longrightarrow> selectedImage (run ops init) \<noteq> None) \<and>
   (guarded init ops \<longrightarrow> viewer_inv (run ops init))"
proof -
  have a: "modalVisible init \<longrightarrow> selectedImage init \<noteq> None" by (simp add: init_def)
  have b: "viewer_inv init" by (simp add: viewer_inv_def init_def)
  show ?thesis using run_keeps_selected_when_open[OF a] run_viewer_inv[OF b] by blast
qed

theorem viewer_open_has_selected_witness:
  "modalVisible
     (run [PickImage Granted
             \<lparr>canceled = False,
              assets = Some [\<lparr>asset_uri = ''u1'', fileName = Some ''a.jpg'', fileSize = None\<rparr>,
                             \<lparr>asset_uri = ''u2'', fileName = None, fileSize = Some 7\<rparr>]\<rparr>
             (\<lambda>k. \<lparr>random36 = (if k = 0 then ''0.i'' else ''0.j''), now = 5\<rparr>),
           OpenLightbox \<lparr>id' = ''i'', uri = ''u1'', name = ''a.jpg'', size' = None\<rparr>,
           RemoveImage ''j'' Remove] init) \<and>
   guarded init
        [PickImage Granted
             \<lparr>canceled = False,
              assets = Some [\<lparr>asset_uri = ''u1'', fileName = Some ''a.jpg'', fileSize = None\<rparr>,
                             \<lparr>asset_uri = ''u2'', fileName = None, fileSize = Some 7\<rparr>]\<rparr>
             (\<lambda>k. \<lparr>random36 = (if k = 0 then ''0.i'' else ''0.j''), now = 5\<rparr>),
           OpenLightbox \<lparr>id' = ''i'', uri = ''u1'', name = ''a.jpg'', size' = None\<rparr>,
           RemoveImage ''j'' Remove] \<and>
   run [PickImage Granted
             \<lparr>canceled = False,
              assets = Some [\<lparr>asset_uri = ''u1'', fileName = Some ''a.jpg'', fileSize = None\<rparr>,
                             \<lparr>asset_uri = ''u2'', fileName = None, fileSize = Some 7\<rparr>]\<rparr>
             (\<lambda>k. \<lparr>random36 = (if k = 0 then ''0.i'' else ''0.j''), now = 5\<rparr>),
           OpenLightbox \<lparr>id' = ''i'', uri = ''u1'', name = ''a.jpg'', size' = None\<rparr>,
           RemoveImage ''j'' Remove] init =
     \<lparr>images = [\<lparr>id' = ''i'', uri = ''u1'', name = ''a.jpg'', size' = None\<rparr>],
      selectedImage = Some \<lparr>id' = ''i'', uri = ''u1'', name = ''a.jpg'', size' = None\<rparr>,
      modalVisible = True\<rparr>"
  using viewer_open_has_selected
    [of "[PickImage Granted
             \<lparr>canceled = False,
              assets = Some [\<lparr>asset_uri = ''u1'', fileName = Some ''a.jpg'', fileSize = None\<rparr>,
                             \<lparr>asset_uri = ''u2'', fileName = None, fileSize = Some 7\<rparr>]\<rparr>
             (\<lambda>k. \<lparr>random36 = (if k = 0 then ''0.i'' else ''0.j''), now = 5\<rparr>),
           OpenLightbox \<lparr>id' = ''i'', uri = ''u1'', name = ''a.jpg'', size' = None\<rparr>,
           RemoveImage ''j'' Remove]"]
  by (simp add: init_def pickImage_def requestPermissions_def substr_def
      or_else_def openLightbox_def removeImage_def toString.simps digit_char_def)

text \<open>
  The claim as the specification words it fails on the sequence import, open, remove:
  the viewer stays open on a record whose id has left \<open>images\<close>.
\<close>

theorem viewer_inv_counterexample:
  "\<not> viewer_inv
       (run [PickImage Granted
               \<lparr>canceled = False,
                assets = Some [\<lparr>asset_uri = ''u1'', fileName = Some ''a.jpg'', fileSize = None\<rparr>]\<rparr>
               (\<lambda>k. \<lparr>random36 = ''0.i'', now = 5\<rparr>),
             OpenLightbox \<lparr>id' = ''i'', uri = ''u1'', name = ''a.jpg'', size' = None\<rparr>,
             RemoveImage ''i'' Remove] init)"
  by (simp add: viewer_inv_def init_def pickImage_def requestPermissions_def substr_def
      or_else_def openLightbox_def removeImage_def)

section \<open>Importing from the library\<close>

lemma map_enumerate_upt:
  assumes "\<And>k a. f (k, a) = g k"
  shows "map f (enumerate n xs) = map g [n..<n + length xs]"
proof (induction xs arbitrary: n)
  case Nil
  then show ?case by simp
next
  case (Cons x xs)
  have "[n..<n + length (x # xs)] = n # [Suc n..<n + length (x # xs)]"
    by (rule upt_conv_Cons) simp
  moreover have "n + length (x # xs) = Suc n + length xs" by simp
  ultimately have "[n..<n + length (x # xs)] = n # [Suc n..<Suc n + length xs]"
    by (simp only:)
  then show ?case using Cons.IH[of "Suc n"] assms by simp
qed

lemma ids_pickImage:
  "map id' (images (fst (pickImage status result draws s))) =
   map id' (images s) @ tokens (PickImage status result draws)"
proof -
  have e: "map (id' \<circ> (\<lambda>(k, asset).
              \<lparr>id' = substr 2 9 (random36 (draws k)), uri = asset_uri asset,
               name = or_else (fileName asset) (''image_'' @ toString (now (draws k)) @ ''.jpg''),
               size' = fileSize asset\<rparr>)) (enumerate 0 as)
          = map (\<lambda>k. substr 2 9 (random36 (draws k))) [0..<length as]" for as
    using map_enumerate_upt[of _ "\<lambda>k. substr 2 9 (random36 (draws k))" 0 as]
    by (simp add: comp_def)
  show ?thesis
    by (cases status; cases "canceled result"; cases "assets result")
       (simp_all add: pickImage_def requestPermissions_def Let_def e del: append.simps list.map)
qed

lemma ids_takePhoto:
  "map id' (images (fst (takePhoto status result d s))) =
   map id' (images s) @ tokens (TakePhoto status result d)"
  by (cases status; cases "canceled result"; cases "assets result")
     (simp_all add: takePhoto_def Let_def split: list.splits)

lemma pickImage_images:
  assumes "\<not> canceled result" and "assets result = Some as"
  shows "fst (pickImage Granted result draws s) =
           s\<lparr>images := images s @
                map (\<lambda>(k, asset).
                       \<lparr>id' = substr 2 9 (random36 (draws k)),
                        uri = asset_uri asset,
                        name = or_else (fileName asset)
                                 (''image_'' @ toString (now (draws k)) @ ''.jpg''),
                        size' = fileSize asset\<rparr>)
                    (enumerate 0 as)\<rparr>"
  using assms by (simp add: pickImage_def requestPermissions_def)

lemma pickImage_canceled:
  assumes "canceled result"
  shows "fst (pickImage status result draws s) = s"
  using assms by (cases status) (simp_all add: pickImage_def requestPermissions_def)

text \<open>
  C4, as the code has it. With permission granted and a result that is not cancelled,
  \<open>pickImage\<close> appends one record per asset, in the picker's order, behind the records
  already there: the id is the token cut from that asset's own random draw, the uri is
  the asset's, the name is the asset's file name unless that is missing or empty, in
  which case it is \<open>image_<timestamp>.jpg\<close>, and the size is the asset's optional byte
  count. The viewer is untouched. A cancelled result leaves the state as it was.
\<close>

theorem pickImage_appends_records:
  "(\<not> canceled result \<and> assets result = Some as \<longrightarrow>
      length (images (fst (pickImage Granted result draws s))) = length (images s) + length as \<and>
      take (length (images s)) (images (fst (pickImage Granted result draws s))) = images s \<and>
      (\<forall>k<length as.
         images (fst (pickImage Granted result draws s)) ! (length (images s) + k) =
           \<lparr>id' = substr 2 9 (random36 (draws k)),
            uri = asset_uri (as ! k),
            name = (case fileName (as ! k) of
                      None \<Rightarrow> ''image_'' @ toString (now (draws k)) @ ''.jpg''
                    | Some f \<Rightarrow>
                        if f = [] then ''image_'' @ toString (now (draws k)) @ ''.jpg'' else f),
            size' = fileSize (as ! k)\<rparr>) \<and>
      selectedImage (fst (pickImage Granted result draws s)) = selectedImage s \<and>
      modalVisible (fst (pickImage Granted result draws s)) = modalVisible s) \<and>
   (canceled result \<longrightarrow> fst (pickImage status result draws s) = s)"
proof -
  have a: "length (images (fst (pickImage Granted result draws s))) = length (images s) + length as"
    and b: "take (length (images s)) (images (fst (pickImage Granted result draws s))) = images s"
    and c: "\<forall>k<length as.
         images (fst (pickImage Granted result draws s)) ! (length (images s) + k) =
           \<lparr>id' = substr 2 9 (random36 (draws k)),
            uri = asset_uri (as ! k),
            name = (case fileName (as ! k) of
                      None \<Rightarrow> ''image_'' @ toString (now (draws k)) @ ''.jpg''
                    | Some f \<Rightarrow>
                        if f = [] then ''image_'' @ toString (now (draws k)) @ ''.jpg'' else f),
            size' = fileSize (as ! k)\<rparr>"
    and d: "selectedImage (fst (pickImage Granted result draws s)) = selectedImage s"
    and e: "modalVisible (fst (pickImage Granted result draws s)) = modalVisible s"
    if h: "\<not> canceled result" "assets result = Some as"
  proof -
    note eq = pickImage_images[OF h, of draws s]
    show "length (images (fst (pickImage Granted result draws s))) = length (images s) + length as"
      unfolding eq by simp
    show "take (length (images s)) (images (fst (pickImage Granted result draws s))) = images s"
      unfolding eq by simp
    show "selectedImage (fst (pickImage Granted result draws s)) = selectedImage s"
      unfolding eq by simp
    show "modalVisible (fst (pickImage Granted result draws s)) = modalVisible s"
      unfolding eq by simp
    show "\<forall>k<length as.
         images (fst (pickImage Granted result draws s)) ! (length (images s) + k) =
           \<lparr>id' = substr 2 9 (random36 (draws k)),
            uri = asset_uri (as ! k),
            name = (case fileName (as ! k) of
                      None \<Rightarrow> ''image_'' @ toString (now (draws k)) @ ''.jpg''
                    | Some f \<Rightarrow>
                        if f = [] then ''image_'' @ toString (now (draws k)) @ ''.jpg'' else f),
            size' = fileSize (as ! k)\<rparr>"
      unfolding eq by (simp add: nth_enumerate_eq or_else_def del: append.simps)
  qed
  show ?thesis using a b c d e pickImage_canceled[of result status draws s] by blast
qed

theorem pickImage_appends_records_witness:
  "\<not> canceled \<lparr>canceled = False,
       assets = Some [\<lparr>asset_uri = ''u1'', fileName = Some ''a.jpg'', fileSize = None\<rparr>,
                      \<lparr>asset_uri = ''u2'', fileName = None, fileSize = Some 2097152\<rparr>]\<rparr> \<and>
   images (fst (pickImage Granted
     \<lparr>canceled = False,
       assets = Some [\<lparr>asset_uri = ''u1'', fileName = Some ''a.jpg'', fileSize = None\<rparr>,
                      \<lparr>asset_uri = ''u2'', fileName = None, fileSize = Some 2097152\<rparr>]\<rparr>
     (\<lambda>k. \<lparr>random36 = (if k = 0 then ''0.4fzyo82mvyr'' else ''0.j''), now = 1700000000000 + k\<rparr>)
     init))
   = [\<lparr>id' = ''4fzyo82mv'', uri = ''u1'', name = ''a.jpg'', size' = None\<rparr>,
      \<lparr>id' = ''j'', uri = ''u2'', name = ''image_1700000000001.jpg'', size' = Some 2097152\<rparr>] \<and>
   canceled \<lparr>canceled = True, assets = None\<rparr> \<and>
   fst (pickImage Granted \<lparr>canceled = True, assets = None\<rparr>
          (\<lambda>k. \<lparr>random36 = ''0.i'', now = 5\<rparr>) init) = init"
  using
    pickImage_appends_records
      [of "\<lparr>canceled = False,
            assets = Some [\<lparr>asset_uri = ''u1'', fileName = Some ''a.jpg'', fileSize = None\<rparr>,
                      \<lparr>asset_uri = ''u2'', fileName = None, fileSize = Some 2097152\<rparr>]\<rparr>"
          "[\<lparr>asset_uri = ''u1'', fileName = Some ''a.jpg'', fileSize = None\<rparr>,
            \<lparr>asset_uri = ''u2'', fileName = None, fileSize = Some 2097152\<rparr>]"
          "\<lambda>k. \<lparr>random36 = (if k = 0 then ''0.4fzyo82mvyr'' else ''0.j''), now = 1700000000000 + k\<rparr>"
          init Granted]
    pickImage_appends_records
      [of "\<lparr>canceled = True, assets = None\<rparr>" "[]" "\<lambda>k. \<lparr>random36 = ''0.i'', now = 5\<rparr>" init Granted]
  by (simp add: init_def pickImage_def requestPermissions_def substr_def or_else_def
      toString.simps digit_char_def)

text \<open>
  The claim as the specification words it gives an asset whose file name is present its
  own file name. An asset with the empty file name gets the timestamp name instead,
  because \<open>||\<close> treats the empty string like a missing one.
\<close>

theorem pickImage_empty_fileName_counterexample:
  "fileName \<lparr>asset_uri = ''u1'', fileName = Some [], fileSize = None\<rparr> = Some [] \<and>
   map name (images (fst (pickImage Granted
     \<lparr>canceled = False,
      assets = Some [\<lparr>asset_uri = ''u1'', fileName = Some [], fileSize = None\<rparr>]\<rparr>
     (\<lambda>k. \<lparr>random36 = ''0.i'', now = 5\<rparr>) init))) = [''image_5.jpg''] \<and>
   map name (images (fst (pickImage Granted
     \<lparr>canceled = False,
      assets = Some [\<lparr>asset_uri = ''u1'', fileName = Some [], fileSize = None\<rparr>]\<rparr>
     (\<lambda>k. \<lparr>random36 = ''0.i'', now = 5\<rparr>) init))) \<noteq> [[]]"
  by (simp add: init_def pickImage_def requestPermissions_def substr_def or_else_def
      toString.simps digit_char_def)

section \<open>Uniqueness of ids\<close>

lemma ids_removeImage:
  "map id' (images (fst (removeImage i Remove s))) = filter (\<lambda>j. j \<noteq> i) (map id' (images s))"
  by (simp add: removeImage_def filter_map comp_def)

lemma ids_step_subset:
  "set (map id' (images (step x s))) \<subseteq> set (map id' (images s)) \<union> set (tokens x)"
proof (cases x)
  case (PickImage st res dr)
  then show ?thesis using ids_pickImage[of st res dr s] by simp
next
  case (TakePhoto st res d)
  then show ?thesis using ids_takePhoto[of st res d s] by simp
next
  case (RemoveImage i b)
  then show ?thesis by (cases b) (auto simp add: removeImage_def)
next
  case (OpenLightbox img)
  then show ?thesis by (simp add: openLightbox_def)
next
  case CloseLightbox
  then show ?thesis by (simp add: closeLightbox_def)
qed

lemma ids_run_subset:
  "set (map id' (images (run xs s))) \<subseteq> set (map id' (images s)) \<union> set (concat (map tokens xs))"
proof (induction xs arbitrary: s)
  case Nil
  then show ?case by simp
next
  case (Cons x xs)
  have "set (map id' (images (run xs (step x s))))
          \<subseteq> set (map id' (images (step x s))) \<union> set (concat (map tokens xs))"
    by (rule Cons.IH)
  then show ?case using ids_step_subset[of x s] by auto
qed

lemma ids_step_distinct:
  assumes "distinct (map id' (images s))" and "distinct (tokens x)"
    and "set (tokens x) \<inter> set (map id' (images s)) = {}"
  shows "distinct (map id' (images (step x s)))"
proof (cases x)
  case (PickImage st res dr)
  have e: "map id' (images (step x s)) = map id' (images s) @ tokens x"
    unfolding PickImage step.simps by (rule ids_pickImage)
  show ?thesis unfolding e using assms by auto
next
  case (TakePhoto st res d)
  have e: "map id' (images (step x s)) = map id' (images s) @ tokens x"
    unfolding TakePhoto step.simps by (rule ids_takePhoto)
  show ?thesis unfolding e using assms by auto
next
  case (RemoveImage i b)
  show ?thesis
  proof (cases b)
    case Cancel
    then show ?thesis using RemoveImage assms(1) by (simp add: removeImage_def)
  next
    case Remove
    then show ?thesis using RemoveImage assms(1) ids_removeImage[of i s] by simp
  qed
next
  case (OpenLightbox img)
  then show ?thesis using assms(1) by (simp add: openLightbox_def)
next
  case CloseLightbox
  then show ?thesis using assms(1) by (simp add: closeLightbox_def)
qed

lemma ids_run_distinct:
  "distinct (map id' (images s)) \<Longrightarrow> distinct (concat (map tokens xs)) \<Longrightarrow>
   set (concat (map tokens xs)) \<inter> set (map id' (images s)) = {} \<Longrightarrow>
   distinct (map id' (images (run xs s)))"
proof (induction xs arbitrary: s)
  case Nil
  then show ?case by simp
next
  case (Cons x xs)
  have c: "concat (map tokens (x # xs)) = tokens x @ concat (map tokens xs)" by simp
  have d1: "distinct (tokens x)" and d2: "distinct (concat (map tokens xs))"
    and d3: "set (tokens x) \<inter> set (concat (map tokens xs)) = {}"
    using Cons.prems(2) unfolding c distinct_append by blast+
  have i1: "set (tokens x) \<inter> set (map id' (images s)) = {}"
    and i2: "set (concat (map tokens xs)) \<inter> set (map id' (images s)) = {}"
    using Cons.prems(3) unfolding c set_append by blast+
  have a: "distinct (map id' (images (step x s)))"
    using ids_step_distinct[OF Cons.prems(1) d1 i1] .
  have b: "set (concat (map tokens xs)) \<inter> set (map id' (images (step x s))) = {}"
    using ids_step_subset[of x s] d3 i2 by blast
  show ?case using Cons.IH[OF a d2 b] by simp
qed

lemma run_append: "run (xs @ ys) s = run ys (run xs s)"
  by (induction xs arbitrary: s) simp_all

text \<open>
  C7, as the code has it. The ids are cut from \<open>Math.random()\<close> and never compared with
  the ids in use, so they are distinct only when the draws are: after every sequence of
  operations from \<open>init\<close> whose tokens are pairwise distinct, the ids in \<open>images\<close> are
  pairwise distinct, and the id of a record that a confirmed \<open>removeImage\<close> has removed
  is the id of no later record.
\<close>

theorem ids_distinct_when_tokens_distinct:
  "(distinct (concat (map tokens ops)) \<longrightarrow> distinct (map id' (images (run ops init)))) \<and>
   (distinct (concat (map tokens (xs @ RemoveImage i Remove # ys))) \<and>
    i \<in> id' ` set (images (run xs init)) \<longrightarrow>
      i \<notin> id' ` set (images (run (xs @ RemoveImage i Remove # ys) init)))"
proof -
  have a: "distinct (concat (map tokens ops)) \<longrightarrow> distinct (map id' (images (run ops init)))"
    using ids_run_distinct[of init ops] by (simp add: init_def)
  have b: "i \<notin> id' ` set (images (run (xs @ RemoveImage i Remove # ys) init))"
    if d: "distinct (concat (map tokens (xs @ RemoveImage i Remove # ys)))"
      and m: "i \<in> id' ` set (images (run xs init))"
  proof -
    have "set (map id' (images (run xs init))) \<subseteq> set (concat (map tokens xs))"
      using ids_run_subset[of xs init] by (simp add: init_def)
    then have "i \<in> set (concat (map tokens xs))" using m by auto
    moreover have "set (concat (map tokens xs)) \<inter> set (concat (map tokens ys)) = {}"
      using d by auto
    ultimately have n: "i \<notin> set (concat (map tokens ys))" by blast
    have r: "i \<notin> set (map id' (images (fst (removeImage i Remove (run xs init)))))"
      by (simp add: ids_removeImage)
    have "set (map id' (images (run ys (fst (removeImage i Remove (run xs init))))))
            \<subseteq> set (map id' (images (fst (removeImage i Remove (run xs init)))))
              \<union> set (concat (map tokens ys))"
      by (rule ids_run_subset)
    then have "i \<notin> set (map id' (images (run ys (fst (removeImage i Remove (run xs init))))))"
      using n r by blast
    then show ?thesis by (simp add: run_append)
  qed
  show ?thesis using a b by blast
qed

theorem ids_distinct_when_tokens_distinct_witness:
  "distinct (concat (map tokens
       [TakePhoto Granted
          \<lparr>canceled = False,
           assets = Some [\<lparr>asset_uri = ''u1'', fileName = None, fileSize = None\<rparr>]\<rparr>
          \<lparr>random36 = ''0.i'', now = 5\<rparr>,
        TakePhoto Granted
          \<lparr>canceled = False,
           assets = Some [\<lparr>asset_uri = ''u2'', fileName = None, fileSize = None\<rparr>]\<rparr>
          \<lparr>random36 = ''0.j'', now = 6\<rparr>,
        RemoveImage ''i'' Remove,
        TakePhoto Granted
          \<lparr>canceled = False,
           assets = Some [\<lparr>asset_uri = ''u3'', fileName = None, fileSize = None\<rparr>]\<rparr>
          \<lparr>random36 = ''0.k'', now = 7\<rparr>])) \<and>
   distinct (map id' (images (run
       [TakePhoto Granted
          \<lparr>canceled = False,
           assets = Some [\<lparr>asset_uri = ''u1'', fileName = None, fileSize = None\<rparr>]\<rparr>
          \<lparr>random36 = ''0.i'', now = 5\<rparr>,
        TakePhoto Granted
          \<lparr>canceled = False,
           assets = Some [\<lparr>asset_uri = ''u2'', fileName = None, fileSize = None\<rparr>]\<rparr>
          \<lparr>random36 = ''0.j'', now = 6\<rparr>,
        RemoveImage ''i'' Remove,
        TakePhoto Granted
          \<lparr>canceled = False,
           assets = Some [\<lparr>asset_uri = ''u3'', fileName = None, fileSize = None\<rparr>]\<rparr>
          \<lparr>random36 = ''0.k'', now = 7\<rparr>] init))) \<and>
   ''i'' \<in> id' ` set (images (run
       [TakePhoto Granted
          \<lparr>canceled = False,
           assets = Some [\<lparr>asset_uri = ''u1'', fileName = None, fileSize = None\<rparr>]\<rparr>
          \<lparr>random36 = ''0.i'', now = 5\<rparr>,
        TakePhoto Granted
          \<lparr>canceled = False,
           assets = Some [\<lparr>asset_uri = ''u2'', fileName = None, fileSize = None\<rparr>]\<rparr>
          \<lparr>random36 = ''0.j'', now = 6\<rparr>] init)) \<and>
   ''i'' \<notin> id' ` set (images (run
       [TakePhoto Granted
          \<lparr>canceled = False,
           assets = Some [\<lparr>asset_uri = ''u1'', fileName = None, fileSize = None\<rparr>]\<rparr>
          \<lparr>random36 = ''0.i'', now = 5\<rparr>,
        TakePhoto Granted
          \<lparr>canceled = False,
           assets = Some [\<lparr>asset_uri = ''u2'', fileName = None, fileSize = None\<rparr>]\<rparr>
          \<lparr>random36 = ''0.j'', now = 6\<rparr>,
        RemoveImage ''i'' Remove,
        TakePhoto Granted
          \<lparr>canceled = False,
           assets = Some [\<lparr>asset_uri = ''u3'', fileName = None, fileSize = None\<rparr>]\<rparr>
          \<lparr>random36 = ''0.k'', now = 7\<rparr>] init))"
  using ids_distinct_when_tokens_distinct
    [of "[TakePhoto Granted
          \<lparr>canceled = False,
           assets = Some [\<lparr>asset_uri = ''u1'', fileName = None, fileSize = None\<rparr>]\<rparr>
          \<lparr>random36 = ''0.i'', now = 5\<rparr>,
        TakePhoto Granted
          \<lparr>canceled = False,
           assets = Some [\<lparr>asset_uri = ''u2'', fileName = None, fileSize = None\<rparr>]\<rparr>
          \<lparr>random36 = ''0.j'', now = 6\<rparr>,
        RemoveImage ''i'' Remove,
        TakePhoto Granted
          \<lparr>canceled = False,
           assets = Some [\<lparr>asset_uri = ''u3'', fileName = None, fileSize = None\<rparr>]\<rparr>
          \<lparr>random36 = ''0.k'', now = 7\<rparr>]"
        "[TakePhoto Granted
          \<lparr>canceled = False,
           assets = Some [\<lparr>asset_uri = ''u1'', fileName = None, fileSize = None\<rparr>]\<rparr>
          \<lparr>random36 = ''0.i'', now = 5\<rparr>,
        TakePhoto Granted
          \<lparr>canceled = False,
           assets = Some [\<lparr>asset_uri = ''u2'', fileName = None, fileSize = None\<rparr>]\<rparr>
          \<lparr>random36 = ''0.j'', now = 6\<rparr>]"
        "''i''"
        "[TakePhoto Granted
          \<lparr>canceled = False,
           assets = Some [\<lparr>asset_uri = ''u3'', fileName = None, fileSize = None\<rparr>]\<rparr>
          \<lparr>random36 = ''0.k'', now = 7\<rparr>]"]
  by (simp add: init_def takePhoto_def removeImage_def substr_def or_else_def
      toString.simps digit_char_def)

text \<open>
  The claim as the specification words it quantifies over every sequence of random
  values. Two captures for which \<open>Math.random()\<close> returns one half both get the id \<open>i\<close>.
\<close>

theorem ids_distinct_counterexample:
  "\<not> distinct (map id' (images (run
       [TakePhoto Granted
          \<lparr>canceled = False,
           assets = Some [\<lparr>asset_uri = ''u1'', fileName = None, fileSize = None\<rparr>]\<rparr>
          \<lparr>random36 = ''0.i'', now = 5\<rparr>,
        TakePhoto Granted
          \<lparr>canceled = False,
           assets = Some [\<lparr>asset_uri = ''u2'', fileName = None, fileSize = None\<rparr>]\<rparr>
          \<lparr>random36 = ''0.i'', now = 6\<rparr>] init)))"
  by (simp add: init_def takePhoto_def substr_def or_else_def
      toString.simps digit_char_def)

section \<open>Formatting a size\<close>

lemma toString_len1: "n < 10 \<Longrightarrow> toString n = [digit_char n]"
  by (simp add: toString.simps)

lemma toString_len2:
  "10 \<le> n \<Longrightarrow> n < 100 \<Longrightarrow> toString n = [digit_char (n div 10), digit_char (n mod 10)]"
  by (subst toString.simps) (simp add: toString_len1)

lemma toString_split100:
  assumes h: "100 \<le> n"
  shows "toString n = toString (n div 100) @ [digit_char (n div 10 mod 10), digit_char (n mod 10)]"
proof -
  have a: "toString n = toString (n div 10) @ [digit_char (n mod 10)]"
    using h by (subst toString.simps) simp
  have "10 \<le> n div 10" using h by arith
  then have b: "toString (n div 10) = toString (n div 10 div 10) @ [digit_char (n div 10 mod 10)]"
    by (subst toString.simps) simp
  have c: "n div 10 div 10 = n div 100" by (simp add: div_mult2_eq)
  show ?thesis using a b c by simp
qed

lemma toString_nonempty: "toString n \<noteq> []"
  by (subst toString.simps) simp

lemma pad_two_places:
  "(let m = toString n; k = length m;
        m = (if k \<le> 2 then replicate (2 + 1 - k) CHR ''0'' @ m else m);
        k = (if k \<le> 2 then 2 + 1 else k)
    in take (k - 2) m @ ''.'' @ drop (k - 2) m)
   = toString (n div 100) @ ''.'' @ [digit_char (n div 10 mod 10), digit_char (n mod 10)]"
proof -
  consider "n < 10" | "10 \<le> n" "n < 100" | "100 \<le> n" by linarith
  then show ?thesis
  proof cases
    case 1
    then show ?thesis
      by (simp add: toString_len1 digit_char_def)
  next
    case 2
    then show ?thesis
      by (simp add: toString_len2 toString_len1 digit_char_def)
  next
    case 3
    then show ?thesis
      using toString_nonempty[of "n div 100"]
      by (simp add: toString_split100 Let_def)
  qed
qed

lemma toFixed_2:
  "toFixed x 2 =
     toString (nat \<lfloor>x * 100 + 1 / 2\<rfloor> div 100) @ ''.'' @
       [digit_char (nat \<lfloor>x * 100 + 1 / 2\<rfloor> div 10 mod 10),
        digit_char (nat \<lfloor>x * 100 + 1 / 2\<rfloor> mod 10)]"
  using pad_two_places[of "nat \<lfloor>x * 100 + 1 / 2\<rfloor>"]
  by (simp add: toFixed_def Let_def)

lemma round_half_up_near:
  fixes x :: rat
  assumes "0 \<le> x"
  shows "\<bar>of_nat (nat \<lfloor>x * 100 + 1 / 2\<rfloor>) / 100 - x\<bar> \<le> 1 / 200"
proof -
  define z where "z = \<lfloor>x * 100 + 1 / 2\<rfloor>"
  have z0: "0 \<le> z" using assms by (simp add: z_def)
  have lo: "of_int z \<le> x * 100 + 1 / 2" by (simp add: z_def)
  have hi: "x * 100 + 1 / 2 < of_int z + 1" unfolding z_def by linarith
  have eq: "(of_nat (nat z) :: rat) = of_int z" using z0 by simp
  have "\<bar>of_int z / 100 - x\<bar> \<le> 1 / 200" using lo hi by linarith
  then show ?thesis unfolding z_def[symmetric] eq .
qed

lemma hundredths_of_bytes:
  "nat \<lfloor>(of_nat b :: rat) / 1024 / 1024 * 100 + 1 / 2\<rfloor> = (b * 100 + 524288) div 1048576"
proof -
  have "(of_nat b :: rat) / 1024 / 1024 * 100 + 1 / 2
          = of_nat (b * 100 + 524288) / of_nat 1048576"
    by (simp add: field_simps)
  then have "\<lfloor>(of_nat b :: rat) / 1024 / 1024 * 100 + 1 / 2\<rfloor>
          = int ((b * 100 + 524288) div 1048576)"
    by (simp only: floor_divide_of_nat_eq)
  then show ?thesis by simp
qed

lemma formatFileSize_Some:
  "0 < b \<Longrightarrow> formatFileSize (Some b) =
     toString ((b * 100 + 524288) div 1048576 div 100) @ ''.'' @
       [digit_char ((b * 100 + 524288) div 1048576 div 10 mod 10),
        digit_char ((b * 100 + 524288) div 1048576 mod 10)] @ '' MB''"
proof -
  assume "0 < b"
  then have "formatFileSize (Some b) = toFixed (of_nat b / 1024 / 1024) 2 @ '' MB''"
    by (simp add: formatFileSize_def)
  then show ?thesis unfolding toFixed_2 hundredths_of_bytes by simp
qed

text \<open>
  C3. \<open>formatFileSize\<close> returns \<open>Unknown size\<close> for a missing and for a zero byte count.
  For a byte count \<open>b\<close> that a JavaScript number holds exactly (positive, below \<open>2^53\<close>)
  it returns a number with two decimal places followed by \<open>MB\<close>: the digits of
  \<open>n div 100\<close>, a point and the two digits of \<open>n mod 100\<close>, where \<open>n / 100\<close> is within half
  a hundredth of \<open>b / 1048576\<close>. In particular 1048576 bytes are \<open>1.00 MB\<close> and 1572864
  bytes are \<open>1.50 MB\<close>.
\<close>

theorem formatFileSize_megabytes:
  "formatFileSize None = ''Unknown size'' \<and>
   formatFileSize (Some 0) = ''Unknown size'' \<and>
   (0 < b \<and> b < 2 ^ 53 \<longrightarrow>
      (\<exists>n. formatFileSize (Some b) =
              toString (n div 100) @ ''.'' @
                [digit_char (n div 10 mod 10), digit_char (n mod 10)] @ '' MB'' \<and>
            \<bar>of_nat n / 100 - (of_nat b / 1048576 :: rat)\<bar> \<le> 1 / 200)) \<and>
   formatFileSize (Some 1048576) = ''1.00 MB'' \<and>
   formatFileSize (Some 1572864) = ''1.50 MB''"
proof -
  have a: "formatFileSize None = ''Unknown size''" by (simp add: formatFileSize_def)
  have b: "formatFileSize (Some 0) = ''Unknown size''" by (simp add: formatFileSize_def)
  have c: "\<exists>n. formatFileSize (Some b) =
              toString (n div 100) @ ''.'' @
                [digit_char (n div 10 mod 10), digit_char (n mod 10)] @ '' MB'' \<and>
            \<bar>of_nat n / 100 - (of_nat b / 1048576 :: rat)\<bar> \<le> 1 / 200" if "0 < b"
  proof -
    define n where "n = (b * 100 + 524288) div 1048576"
    have s: "formatFileSize (Some b) =
              toString (n div 100) @ ''.'' @
                [digit_char (n div 10 mod 10), digit_char (n mod 10)] @ '' MB''"
      unfolding n_def using that by (rule formatFileSize_Some)
    have "\<bar>of_nat (nat \<lfloor>(of_nat b :: rat) / 1024 / 1024 * 100 + 1 / 2\<rfloor>) / 100
             - (of_nat b / 1024 / 1024 :: rat)\<bar> \<le> 1 / 200"
      by (rule round_half_up_near) simp
    then have "\<bar>of_nat n / 100 - (of_nat b / 1024 / 1024 :: rat)\<bar> \<le> 1 / 200"
      unfolding hundredths_of_bytes n_def .
    then have "\<bar>of_nat n / 100 - (of_nat b / 1048576 :: rat)\<bar> \<le> 1 / 200" by simp
    then show ?thesis using s by blast
  qed
  have d: "formatFileSize (Some 1048576) = ''1.00 MB''"
    by (simp add: formatFileSize_Some toString.simps digit_char_def)
  have e: "formatFileSize (Some 1572864) = ''1.50 MB''"
    by (simp add: formatFileSize_Some toString.simps digit_char_def)
  show ?thesis using a b c d e by blast
qed

theorem formatFileSize_megabytes_witness:
  "(0::nat) < 2097152 \<and> (2097152::nat) < 2 ^ 53 \<and>
   formatFileSize (Some 2097152) = ''2.00 MB'' \<and>
   \<bar>of_nat 200 / 100 - (of_nat 2097152 / 1048576 :: rat)\<bar> \<le> 1 / 200"
  using formatFileSize_megabytes[of 2097152]
  by (simp add: formatFileSize_Some toString.simps digit_char_def)

end
